theory Spec2Isabelle
  imports Complex_Main
begin

section \<open>Binary64 arithmetic\<close>

text \<open>
  The notebook cell "Finding the Elbow" computes with Python floats and numpy
  \<open>float64\<close> arrays, that is with IEEE 754 binary64 numbers in round-to-nearest-even.
  A finite binary64 number is a real number, so a value is a real, an infinity or NaN;
  every operation computes the exact real result and rounds it with \<open>round64\<close>.
  The sign of a zero is not kept: the only division of the cell divides by a converted
  Python integer, whose zero is \<open>+0.0\<close>, and comparisons do not see the sign.
\<close>

datatype f64 = Fin real | PInf | NInf | NaN

definition pow2 :: "int \<Rightarrow> real" where
  "pow2 k = (if 0 \<le> k then 2 ^ nat k else 1 / 2 ^ nat (- k))"

text \<open>
  For \<open>a > 0\<close>, the exponent \<open>e\<close> with \<open>2^e \<le> a < 2^(e+1)\<close>, searched
  by halving between \<open>-1075\<close> and \<open>3020\<close>; all binary64 exponents lie in between.
\<close>

definition lift_exp :: "real \<Rightarrow> int \<Rightarrow> int \<Rightarrow> int" where
  "lift_exp a w lo = (if pow2 (lo + w) \<le> a then lo + w else lo)"

definition floor_log2 :: "real \<Rightarrow> int" where
  "floor_log2 a =
     lift_exp a 1 (lift_exp a 2 (lift_exp a 4 (lift_exp a 8 (lift_exp a 16 (lift_exp a 32
       (lift_exp a 64 (lift_exp a 128 (lift_exp a 256 (lift_exp a 512 (lift_exp a 1024
         (lift_exp a 2048 (- 1075))))))))))))"

definition tie_even :: "int \<Rightarrow> real \<Rightarrow> int" where
  "tie_even f d = (if d < 1 / 2 then f
     else if 1 / 2 < d then f + 1
     else if even f then f else f + 1)"

definition round_half_even :: "real \<Rightarrow> int" where
  "round_half_even r = tie_even \<lfloor>r\<rfloor> (r - of_int \<lfloor>r\<rfloor>)"

text \<open>
  Rounding to binary64: 53 significant bits, the unit in the last place \<open>2^q\<close> never
  below \<open>2^-1074\<close> (subnormal numbers), and an infinity once the rounded magnitude
  reaches \<open>2^1024\<close>.
\<close>

definition quantum :: "real \<Rightarrow> int" where
  "quantum a = max (floor_log2 a - 52) (- 1074)"

definition round_at :: "real \<Rightarrow> int \<Rightarrow> real" where
  "round_at a q = of_int (round_half_even (a / pow2 q)) * pow2 q"

definition fin_or_inf :: "bool \<Rightarrow> real \<Rightarrow> f64" where
  "fin_or_inf pos y = (if pow2 1024 \<le> y then (if pos then PInf else NInf)
     else Fin (if pos then y else - y))"

definition round64 :: "real \<Rightarrow> f64" where
  "round64 x = (if x = 0 then Fin 0
     else fin_or_inf (0 < x) (round_at \<bar>x\<bar> (quantum \<bar>x\<bar>)))"

definition is_nan :: "f64 \<Rightarrow> bool" where
  "is_nan x = (case x of NaN \<Rightarrow> True | _ \<Rightarrow> False)"

fun fneg :: "f64 \<Rightarrow> f64" where
  "fneg (Fin a) = Fin (- a)"
| "fneg PInf = NInf"
| "fneg NInf = PInf"
| "fneg NaN = NaN"

fun fadd :: "f64 \<Rightarrow> f64 \<Rightarrow> f64" where
  "fadd NaN y = NaN"
| "fadd x NaN = NaN"
| "fadd PInf NInf = NaN"
| "fadd NInf PInf = NaN"
| "fadd PInf y = PInf"
| "fadd NInf y = NInf"
| "fadd x PInf = PInf"
| "fadd x NInf = NInf"
| "fadd (Fin a) (Fin b) = round64 (a + b)"

definition fsub :: "f64 \<Rightarrow> f64 \<Rightarrow> f64" where
  "fsub x y = fadd x (fneg y)"

text \<open>The sign of a value: \<open>1\<close>, \<open>0\<close> or \<open>-1\<close>; NaN has none.\<close>

fun fsgn :: "f64 \<Rightarrow> int option" where
  "fsgn (Fin a) = Some (if 0 < a then 1 else if a = 0 then 0 else - 1)"
| "fsgn PInf = Some 1"
| "fsgn NInf = Some (- 1)"
| "fsgn NaN = None"

definition inf_of_sign :: "int \<Rightarrow> f64" where
  "inf_of_sign s = (if 0 < s then PInf else if s = 0 then NaN else NInf)"

fun fmul :: "f64 \<Rightarrow> f64 \<Rightarrow> f64" where
  "fmul (Fin a) (Fin b) = round64 (a * b)"
| "fmul x y = (case (fsgn x, fsgn y) of
       (Some s, Some t) \<Rightarrow> inf_of_sign (s * t)
     | _ \<Rightarrow> NaN)"

text \<open>
  Division as numpy's \<open>float64\<close> does it: a zero divisor gives an infinity of the
  dividend's sign, or NaN for \<open>0/0\<close> and \<open>NaN/0\<close>.
\<close>

fun fdiv :: "f64 \<Rightarrow> f64 \<Rightarrow> f64" where
  "fdiv NaN y = NaN"
| "fdiv x NaN = NaN"
| "fdiv (Fin a) (Fin b) = (if b = 0 then inf_of_sign (if 0 < a then 1 else if a = 0 then 0 else - 1)
                           else round64 (a / b))"
| "fdiv (Fin a) y = Fin 0"
| "fdiv x (Fin b) = (case fsgn x of Some s \<Rightarrow> inf_of_sign (if b < 0 then - s else s) | None \<Rightarrow> NaN)"
| "fdiv x y = NaN"

text \<open>Comparisons; every comparison with NaN is false.\<close>

fun fle :: "f64 \<Rightarrow> f64 \<Rightarrow> bool" where
  "fle NaN y = False"
| "fle x NaN = False"
| "fle NInf y = True"
| "fle x PInf = True"
| "fle PInf y = False"
| "fle x NInf = False"
| "fle (Fin a) (Fin b) = (a \<le> b)"

definition flt :: "f64 \<Rightarrow> f64 \<Rightarrow> bool" where
  "flt x y = (fle x y \<and> \<not> fle y x)"

text \<open>The binary64 number nearest to an integer, or an infinity.\<close>

definition of_int64 :: "int \<Rightarrow> f64" where
  "of_int64 n = round64 (of_int n)"

section \<open>The cell "Finding the Elbow"\<close>

text \<open>
  The cell reads the two lists the sweep left in the session, \<open>n_est\<close> (Python
  integers, of any size) and \<open>val_mad\<close> (one validation error per parameter value):

  \<^verbatim>\<open>slope = (val_mad[-1]-val_mad[0])/(n_est[-1]-n_est[0])\<close>

  \<^verbatim>\<open>intercept = val_mad[0] - slope*n_est[0]\<close>

  \<^verbatim>\<open>best_n = (np.array(n_est)*slope+intercept-np.array(val_mad)).argmax()\<close>

  \<^verbatim>\<open>print("The best value of n is {}.".format(n_est[best_n]))\<close>

  An exception of the cell is a value of \<open>error\<close>.
\<close>

datatype error = IndexError | ZeroDivisionError | ValueError | OverflowError

text \<open>Python's \<open>xs[i]\<close>: a negative index counts from the end.\<close>

definition getitem :: "'a list \<Rightarrow> int \<Rightarrow> error + 'a" where
  "getitem xs i =
     (if 0 \<le> i \<and> i < int (length xs) then Inr (xs ! nat i)
      else if i < 0 \<and> 0 \<le> int (length xs) + i then Inr (xs ! nat (int (length xs) + i))
      else Inl IndexError)"

definition bind :: "error + 'a \<Rightarrow> ('a \<Rightarrow> error + 'b) \<Rightarrow> error + 'b" where
  "bind m f = (case m of Inl e \<Rightarrow> Inl e | Inr a \<Rightarrow> f a)"

text \<open>
  A Python integer that meets a float in \<open>/\<close> or \<open>*\<close> is converted to a float:
  rounded to the nearest binary64 number, with \<open>OverflowError\<close> ("int too large to
  convert to float") when that is no finite number, from \<open>2^1024 - 2^970\<close> on.
\<close>

definition to_float :: "int \<Rightarrow> error + f64" where
  "to_float n = (case of_int64 n of Fin a \<Rightarrow> Inr (Fin a) | _ \<Rightarrow> Inl OverflowError)"

text \<open>
  The elements of \<open>val_mad\<close> are what \<open>sklearn.metrics.mean_absolute_error\<close>
  returned, which is not code of this repository. Their type decides the division in
  \<open>slope\<close>: a Python \<open>float\<close> divided by the integer zero raises
  \<open>ZeroDivisionError\<close>, while a numpy \<open>float64\<close> scalar gives an infinity or NaN
  (with a warning only). The type is a parameter of the model.
\<close>

datatype scalar = PyFloat | NpFloat64

definition truediv :: "scalar \<Rightarrow> f64 \<Rightarrow> int \<Rightarrow> error + f64" where
  "truediv k x d = (if k = PyFloat \<and> d = 0 then Inl ZeroDivisionError
                    else bind (to_float d) (\<lambda>y. Inr (fdiv x y)))"

definition slope :: "scalar \<Rightarrow> int list \<Rightarrow> f64 list \<Rightarrow> error + f64" where
  "slope k n_est val_mad =
     bind (getitem val_mad (- 1)) (\<lambda>e_last.
     bind (getitem val_mad 0) (\<lambda>e_first.
     bind (getitem n_est (- 1)) (\<lambda>p_last.
     bind (getitem n_est 0) (\<lambda>p_first.
       truediv k (fsub e_last e_first) (p_last - p_first)))))"

definition intercept :: "int list \<Rightarrow> f64 list \<Rightarrow> f64 \<Rightarrow> error + f64" where
  "intercept n_est val_mad s =
     bind (getitem val_mad 0) (\<lambda>e_first.
     bind (getitem n_est 0) (\<lambda>p_first.
     bind (to_float p_first) (\<lambda>y.
       Inr (fsub e_first (fmul s y)))))"

text \<open>
  \<open>np.array(n_est)*slope+intercept\<close>: the line at every parameter value. Every element
  is converted to binary64, by the array's type when \<open>np.array(n_est)\<close> is an
  \<open>int64\<close>, \<open>uint64\<close> or \<open>float64\<close> array, and by Python, element after element,
  when it is an array of Python objects; only there can the conversion fail.
\<close>

fun line_values :: "int list \<Rightarrow> f64 \<Rightarrow> f64 \<Rightarrow> error + f64 list" where
  "line_values [] s i = Inr []"
| "line_values (p # ps) s i =
     bind (to_float p) (\<lambda>y.
     bind (line_values ps s i) (\<lambda>ls.
       Inr (fadd (fmul y s) i # ls)))"

text \<open>
  The subtraction of two one-dimensional arrays: numpy stretches an array of length one
  to the other's length and raises \<open>ValueError\<close> for any other pair of different lengths.
\<close>

definition array_sub :: "f64 list \<Rightarrow> f64 list \<Rightarrow> error + f64 list" where
  "array_sub xs ys =
     (if length xs = length ys then Inr (map2 fsub xs ys)
      else if length ys = 1 then Inr (map (\<lambda>x. fsub x (hd ys)) xs)
      else if length xs = 1 then Inr (map (\<lambda>y. fsub (hd xs) y) ys)
      else Inl ValueError)"

definition distances :: "int list \<Rightarrow> f64 list \<Rightarrow> f64 \<Rightarrow> f64 \<Rightarrow> error + f64 list" where
  "distances n_est val_mad s i = bind (line_values n_est s i) (\<lambda>ls. array_sub ls val_mad)"

text \<open>
  \<open>argmax\<close> of a \<open>float64\<close> array, as numpy documents and implements it: the index
  of the first occurrence of the maximum, where a NaN counts as the maximum and ends the
  scan; an empty array raises \<open>ValueError\<close>. \<open>argmax_loop xs i mp k\<close> scans the rest
  \<open>xs\<close> of the array from index \<open>i\<close> with the maximum \<open>mp\<close> found at index \<open>k\<close>.
\<close>

fun argmax_loop :: "f64 list \<Rightarrow> nat \<Rightarrow> f64 \<Rightarrow> nat \<Rightarrow> nat" where
  "argmax_loop [] i mp k = k"
| "argmax_loop (x # xs) i mp k =
     (if \<not> fle x mp then (if is_nan x then i else argmax_loop xs (Suc i) x i)
      else argmax_loop xs (Suc i) mp k)"

definition argmax :: "f64 list \<Rightarrow> error + nat" where
  "argmax ds = (case ds of [] \<Rightarrow> Inl ValueError
     | x # xs \<Rightarrow> if is_nan x then Inr 0 else Inr (argmax_loop xs 1 x 0))"

text \<open>
  \<open>np.array(n_est)\<close> is an \<open>int64\<close> array when every value fits \<open>int64\<close>; it is an
  array of Python objects when some value lies below \<open>-2^63\<close> or from \<open>2^64\<close> on (between
  the two, numpy makes a \<open>uint64\<close> or a \<open>float64\<close> array). The arg-max of an array of
  objects compares with Python's \<open>>\<close>: it moves to an element only if that is greater than
  the maximum so far, which a NaN never is and which nothing is once the maximum is a NaN.
\<close>

definition in_int64 :: "int \<Rightarrow> bool" where
  "in_int64 n \<longleftrightarrow> - (2 ^ 63) \<le> n \<and> n < 2 ^ 63"

definition object_array :: "int list \<Rightarrow> bool" where
  "object_array n_est \<longleftrightarrow> list_ex (\<lambda>p. p < - (2 ^ 63) \<or> 2 ^ 64 \<le> p) n_est"

fun argmax_object_loop :: "f64 list \<Rightarrow> nat \<Rightarrow> f64 \<Rightarrow> nat \<Rightarrow> nat" where
  "argmax_object_loop [] i mp k = k"
| "argmax_object_loop (x # xs) i mp k =
     (if flt mp x then argmax_object_loop xs (Suc i) x i
      else argmax_object_loop xs (Suc i) mp k)"

definition argmax_object :: "f64 list \<Rightarrow> error + nat" where
  "argmax_object ds = (case ds of [] \<Rightarrow> Inl ValueError
     | x # xs \<Rightarrow> Inr (argmax_object_loop xs 1 x 0))"

definition array_argmax :: "int list \<Rightarrow> f64 list \<Rightarrow> error + nat" where
  "array_argmax n_est ds = (if object_array n_est then argmax_object ds else argmax ds)"

definition best_n :: "scalar \<Rightarrow> int list \<Rightarrow> f64 list \<Rightarrow> error + nat" where
  "best_n k n_est val_mad =
     bind (slope k n_est val_mad) (\<lambda>s.
     bind (intercept n_est val_mad s) (\<lambda>i.
     bind (distances n_est val_mad s i) (array_argmax n_est)))"

text \<open>The value the cell prints, \<open>n_est[best_n]\<close>: the selected parameter value.\<close>

definition best_value :: "scalar \<Rightarrow> int list \<Rightarrow> f64 list \<Rightarrow> error + int" where
  "best_value k n_est val_mad =
     bind (best_n k n_est val_mad) (\<lambda>b. getitem n_est (int b))"

text \<open>
  The cell as a step of the session: it binds \<open>slope\<close>, \<open>intercept\<close> and
  \<open>best_n\<close> one after the other and prints one value; an exception ends it and keeps
  the bindings made so far.
\<close>

record session =
  g_n_est :: "int list"
  g_val_mad :: "f64 list"
  g_slope :: "f64 option"
  g_intercept :: "f64 option"
  g_best_n :: "nat option"
  g_printed :: "int list"

definition run_cell :: "scalar \<Rightarrow> session \<Rightarrow> error option \<times> session" where
  "run_cell k g =
     (case slope k (g_n_est g) (g_val_mad g) of
        Inl e \<Rightarrow> (Some e, g)
      | Inr s \<Rightarrow>
     (case intercept (g_n_est g) (g_val_mad g) s of
        Inl e \<Rightarrow> (Some e, g\<lparr>g_slope := Some s\<rparr>)
      | Inr i \<Rightarrow>
     (case bind (distances (g_n_est g) (g_val_mad g) s i) (array_argmax (g_n_est g)) of
        Inl e \<Rightarrow> (Some e, g\<lparr>g_slope := Some s, g_intercept := Some i\<rparr>)
      | Inr b \<Rightarrow>
     (case getitem (g_n_est g) (int b) of
        Inl e \<Rightarrow> (Some e, g\<lparr>g_slope := Some s, g_intercept := Some i, g_best_n := Some b\<rparr>)
      | Inr v \<Rightarrow> (None, g\<lparr>g_slope := Some s, g_intercept := Some i, g_best_n := Some b,
                            g_printed := g_printed g @ [v]\<rparr>)))))"

section \<open>What the contract says\<close>

text \<open>
  The contract's formulas, in its own words and in binary64: the slope
  \<open>(e_n - e_1) / (p_n - p_1)\<close>, the intercept \<open>e_1 - slope * p_1\<close> and, for the
  point at index \<open>j\<close>, its distance below the line \<open>(slope * p_j + intercept) - e_j\<close>.
\<close>

definition chord_slope :: "int list \<Rightarrow> f64 list \<Rightarrow> f64" where
  "chord_slope ps es = fdiv (fsub (last es) (hd es)) (of_int64 (last ps - hd ps))"

definition chord_intercept :: "int list \<Rightarrow> f64 list \<Rightarrow> f64" where
  "chord_intercept ps es = fsub (hd es) (fmul (chord_slope ps es) (of_int64 (hd ps)))"

definition below_line :: "int list \<Rightarrow> f64 list \<Rightarrow> nat \<Rightarrow> f64" where
  "below_line ps es j =
     fsub (fadd (fmul (chord_slope ps es) (of_int64 (ps ! j))) (chord_intercept ps es)) (es ! j)"

text \<open>
  What an arg-max index \<open>r\<close> of \<open>ds\<close> is: no earlier value is a NaN or reaches
  \<open>ds ! r\<close>, and \<open>ds ! r\<close> is a NaN or bounds every value.
\<close>

definition argmax_spec :: "f64 list \<Rightarrow> nat \<Rightarrow> bool" where
  "argmax_spec ds r \<longleftrightarrow> r < length ds
     \<and> (\<forall>j<r. \<not> is_nan (ds ! j) \<and> \<not> fle (ds ! r) (ds ! j))
     \<and> (is_nan (ds ! r) \<or> (\<forall>j<length ds. fle (ds ! j) (ds ! r)))"

section \<open>Exact arithmetic\<close>

text \<open>
  The same formulas over the real numbers, for a sweep with finite errors \<open>es\<close>, and the
  sweeps on which binary64 computes them without rounding: \<open>exact r\<close> says that \<open>r\<close> is a
  binary64 number, and \<open>exact_sweep\<close> that every intermediate result of the cell is one.
\<close>

definition slope_exact :: "int list \<Rightarrow> real list \<Rightarrow> real" where
  "slope_exact ps es = (last es - hd es) / of_int (last ps - hd ps)"

definition intercept_exact :: "int list \<Rightarrow> real list \<Rightarrow> real" where
  "intercept_exact ps es = hd es - slope_exact ps es * of_int (hd ps)"

definition below_exact :: "int list \<Rightarrow> real list \<Rightarrow> nat \<Rightarrow> real" where
  "below_exact ps es j =
     (slope_exact ps es * of_int (ps ! j) + intercept_exact ps es) - es ! j"

definition exact :: "real \<Rightarrow> bool" where
  "exact r \<longleftrightarrow> round64 r = Fin r"

definition exact_point :: "real \<Rightarrow> real \<Rightarrow> int \<Rightarrow> real \<Rightarrow> bool" where
  "exact_point s i p e \<longleftrightarrow> exact (of_int p) \<and> exact (s * of_int p)
     \<and> exact (s * of_int p + i) \<and> exact (s * of_int p + i - e)"

definition exact_sweep :: "int list \<Rightarrow> real list \<Rightarrow> bool" where
  "exact_sweep ps es \<longleftrightarrow>
     exact (last es - hd es) \<and> exact (of_int (last ps - hd ps))
     \<and> exact (slope_exact ps es)
     \<and> exact (intercept_exact ps es)
     \<and> (\<forall>j<length ps. exact_point (slope_exact ps es) (intercept_exact ps es) (ps ! j) (es ! j))"

section \<open>Properties of the comparison and of the arg-max\<close>

lemma fle_not_nan: "fle x y \<Longrightarrow> \<not> is_nan x \<and> \<not> is_nan y"
  by (cases x; cases y) (simp_all add: is_nan_def)

lemma fle_refl: "\<not> is_nan x \<Longrightarrow> fle x x"
  by (cases x) (simp_all add: is_nan_def)

lemma fle_trans: "fle x y \<Longrightarrow> fle y z \<Longrightarrow> fle x z"
  by (cases x; cases y; cases z) simp_all

lemma fle_total: "\<not> is_nan x \<Longrightarrow> \<not> is_nan y \<Longrightarrow> fle x y \<or> fle y x"
  by (cases x; cases y) (auto simp: is_nan_def)

lemma argmax_loop_spec:
  assumes "ds = pre @ xs" "i = length pre" "k < i" "mp = ds ! k"
    and "\<forall>j<i. fle (ds ! j) mp" "\<forall>j<k. \<not> fle mp (ds ! j)"
  shows "argmax_spec ds (argmax_loop xs i mp k)"
  using assms
proof (induction xs arbitrary: pre i mp k)
  case Nil
  have "\<not> is_nan (ds ! j)" if "j < k" for j
  proof -
    from that Nil.prems have "fle (ds ! j) mp" by simp
    then show ?thesis using fle_not_nan by blast
  qed
  with Nil.prems show ?case
    by (simp add: argmax_spec_def)
next
  case (Cons x xs)
  have dsi: "ds ! i = x" using Cons.prems by simp
  have nn: "\<not> is_nan mp" using Cons.prems fle_not_nan by blast
  show ?case
  proof (cases "fle x mp")
    case True
    have "argmax_spec ds (argmax_loop xs (Suc i) mp k)"
    proof (rule Cons.IH[of "pre @ [x]"])
      show "\<forall>j<Suc i. fle (ds ! j) mp"
        using Cons.prems True dsi by (auto simp: less_Suc_eq)
    qed (use Cons.prems in auto)
    with True show ?thesis by simp
  next
    case False
    show ?thesis
    proof (cases "is_nan x")
      case True
      have "argmax_spec ds i"
        unfolding argmax_spec_def
      proof (intro conjI)
        show "i < length ds" using Cons.prems by simp
        show "\<forall>j<i. \<not> is_nan (ds ! j) \<and> \<not> fle (ds ! i) (ds ! j)"
        proof (intro allI impI conjI)
          fix j assume "j < i"
          with Cons.prems have "fle (ds ! j) mp" by simp
          then show "\<not> is_nan (ds ! j)" using fle_not_nan by blast
          show "\<not> fle (ds ! i) (ds ! j)" using True dsi fle_not_nan by metis
        qed
        show "is_nan (ds ! i) \<or> (\<forall>j<length ds. fle (ds ! j) (ds ! i))"
          using True dsi by simp
      qed
      with False True show ?thesis by simp
    next
      case nx: False
      have lt: "fle mp x" using fle_total[OF nn nx] False by blast
      have "argmax_spec ds (argmax_loop xs (Suc i) x i)"
      proof (rule Cons.IH[of "pre @ [x]"])
        show "\<forall>j<Suc i. fle (ds ! j) x"
        proof (intro allI impI)
          fix j assume "j < Suc i"
          then consider "j < i" | "j = i" by linarith
          then show "fle (ds ! j) x"
          proof cases
            case 1
            with Cons.prems have "fle (ds ! j) mp" by simp
            with lt show ?thesis using fle_trans by blast
          next
            case 2
            then show ?thesis using dsi fle_refl[OF nx] by simp
          qed
        qed
        show "\<forall>j<i. \<not> fle x (ds ! j)"
        proof (intro allI impI)
          fix j assume "j < i"
          with Cons.prems have "fle (ds ! j) mp" by simp
          with False show "\<not> fle x (ds ! j)" using fle_trans by blast
        qed
      qed (use Cons.prems dsi in auto)
      with False nx show ?thesis by simp
    qed
  qed
qed

lemma argmax_meets_spec:
  assumes "ds \<noteq> []"
  shows "\<exists>r. argmax ds = Inr r \<and> argmax_spec ds r"
proof (cases ds)
  case Nil
  with assms show ?thesis by simp
next
  case (Cons x xs)
  show ?thesis
  proof (cases "is_nan x")
    case True
    then show ?thesis using Cons by (simp add: argmax_def argmax_spec_def)
  next
    case False
    have "argmax_spec ds (argmax_loop xs 1 x 0)"
      by (rule argmax_loop_spec[of ds "[x]"]) (use Cons False fle_refl in auto)
    then show ?thesis using Cons False by (simp add: argmax_def)
  qed
qed


lemma flt_iff_not_fle: "\<not> is_nan x \<Longrightarrow> \<not> is_nan y \<Longrightarrow> flt x y \<longleftrightarrow> \<not> fle y x"
  using fle_total[of x y] by (auto simp: flt_def)

lemma argmax_object_loop_eq:
  assumes "\<not> is_nan mp" "\<forall>x\<in>set xs. \<not> is_nan x"
  shows "argmax_object_loop xs i mp k = argmax_loop xs i mp k"
  using assms
proof (induction xs arbitrary: i mp k)
  case Nil
  then show ?case by simp
next
  case (Cons x xs)
  then have "flt mp x \<longleftrightarrow> \<not> fle x mp" by (simp add: flt_iff_not_fle)
  with Cons show ?case by simp
qed

lemma argmax_object_eq:
  assumes "\<forall>x\<in>set ds. \<not> is_nan x"
  shows "argmax_object ds = argmax ds"
proof (cases ds)
  case Nil
  then show ?thesis by (simp add: argmax_object_def argmax_def)
next
  case (Cons x xs)
  with assms show ?thesis
    by (simp add: argmax_object_def argmax_def argmax_object_loop_eq)
qed

section \<open>Integers that convert to binary64\<close>

lemma pow2_pos: "0 < pow2 k"
  by (simp add: pow2_def)

lemma pow2_mono: "k \<le> l \<Longrightarrow> pow2 k \<le> pow2 l"
proof -
  have "pow2 k = 2 powi k" for k
    by (simp add: pow2_def power_int_def power_inverse field_simps)
  then show "k \<le> l \<Longrightarrow> pow2 k \<le> pow2 l"
    by (simp add: power_int_increasing)
qed

lemma lift_exp_inv:
  "pow2 lo \<le> a \<or> lo = c \<Longrightarrow> pow2 (lift_exp a w lo) \<le> a \<or> lift_exp a w lo = c"
  by (auto simp: lift_exp_def)

lemma floor_log2_below: "pow2 (floor_log2 a) \<le> a \<or> floor_log2 a = - 1075"
  unfolding floor_log2_def by (intro lift_exp_inv) simp

lemma round_half_even_le: "of_int (round_half_even r) \<le> r + 1"
proof -
  have "of_int \<lfloor>r\<rfloor> \<le> r" by simp
  then show ?thesis
    unfolding round_half_even_def tie_even_def by (auto simp del: of_int_floor_le)
qed

lemma round64_finite:
  assumes "\<bar>x\<bar> \<le> 2 ^ 64"
  shows "\<exists>a. round64 x = Fin a"
proof (cases "x = 0")
  case True
  then show ?thesis by (simp add: round64_def)
next
  case False
  let ?a = "\<bar>x\<bar>"
  let ?q = "quantum ?a"
  have "floor_log2 ?a \<le> 64"
  proof (rule ccontr)
    assume "\<not> floor_log2 ?a \<le> 64"
    then have big: "65 \<le> floor_log2 ?a" by simp
    then have "pow2 (floor_log2 ?a) \<le> ?a" using floor_log2_below[of ?a] by auto
    moreover have "pow2 65 \<le> pow2 (floor_log2 ?a)" using big by (rule pow2_mono)
    moreover have "pow2 65 = 2 ^ 65" by (simp add: pow2_def)
    ultimately have "(2::real) ^ 65 \<le> 2 ^ 64" using assms by linarith
    then show False by simp
  qed
  then have "?q \<le> 12" by (simp add: quantum_def)
  then have "pow2 ?q \<le> pow2 12" by (rule pow2_mono)
  then have q: "pow2 ?q \<le> 4096" by (simp add: pow2_def)
  have "of_int (round_half_even (?a / pow2 ?q)) * pow2 ?q \<le> (?a / pow2 ?q + 1) * pow2 ?q"
    using round_half_even_le[of "?a / pow2 ?q"] pow2_pos[of ?q]
    by (intro mult_right_mono) simp_all
  also have "\<dots> = ?a + pow2 ?q"
    using pow2_pos[of ?q] by (simp add: field_simps)
  also have "\<dots> \<le> 2 ^ 64 + 4096" using assms q by linarith
  also have "\<dots> < pow2 1024" by (simp add: pow2_def)
  finally have "\<not> pow2 1024 \<le> round_at ?a ?q" by (simp add: round_at_def)
  then show ?thesis using False by (simp add: round64_def fin_or_inf_def)
qed

lemma to_float_small: "\<bar>n\<bar> \<le> 2 ^ 64 \<Longrightarrow> to_float n = Inr (of_int64 n)"
proof -
  assume "\<bar>n\<bar> \<le> 2 ^ 64"
  then have "\<bar>real_of_int n\<bar> \<le> 2 ^ 64"
    by (metis of_int_abs of_int_le_iff of_int_numeral of_int_power)
  from round64_finite[OF this] show ?thesis
    by (auto simp: to_float_def of_int64_def)
qed

lemma to_float_int64: "in_int64 n \<Longrightarrow> to_float n = Inr (of_int64 n)"
  by (rule to_float_small) (auto simp: in_int64_def)

lemma to_float_range:
  "in_int64 a \<Longrightarrow> in_int64 b \<Longrightarrow> to_float (a - b) = Inr (of_int64 (a - b))"
  by (rule to_float_small) (auto simp: in_int64_def)

lemma to_float_exact: "exact (of_int n) \<Longrightarrow> to_float n = Inr (of_int64 n)"
  by (simp add: to_float_def of_int64_def exact_def)

lemma int64_not_object: "\<forall>p\<in>set ps. in_int64 p \<Longrightarrow> \<not> object_array ps"
  by (auto simp: object_array_def list_ex_iff in_int64_def)

section \<open>The cell on well-formed sweeps\<close>

lemma getitem_last: "xs \<noteq> [] \<Longrightarrow> getitem xs (- 1) = Inr (last xs)"
  by (cases xs rule: rev_cases) (simp_all add: getitem_def nat_add_distrib nth_append)

lemma getitem_first: "xs \<noteq> [] \<Longrightarrow> getitem xs 0 = Inr (hd xs)"
  by (cases xs) (simp_all add: getitem_def)

lemma getitem_nth: "j < length xs \<Longrightarrow> getitem xs (int j) = Inr (xs ! j)"
  by (simp add: getitem_def)

lemma fmul_commute: "fmul x y = fmul y x"
  by (cases x; cases y) (simp_all add: mult.commute)

lemma line_values_converted:
  "\<forall>p\<in>set ps. to_float p = Inr (of_int64 p) \<Longrightarrow>
   line_values ps s i = Inr (map (\<lambda>p. fadd (fmul (of_int64 p) s) i) ps)"
  by (induction ps) (simp_all add: bind_def)

lemma slope_valid:
  assumes "ps \<noteq> []" "es \<noteq> []" "last ps \<noteq> hd ps"
    and "to_float (last ps - hd ps) = Inr (of_int64 (last ps - hd ps))"
  shows "slope k ps es = Inr (chord_slope ps es)"
  using assms
  by (simp add: slope_def bind_def getitem_last getitem_first truediv_def chord_slope_def)

lemma intercept_valid:
  assumes "ps \<noteq> []" "es \<noteq> []" "to_float (hd ps) = Inr (of_int64 (hd ps))"
  shows "intercept ps es s = Inr (fsub (hd es) (fmul s (of_int64 (hd ps))))"
  using assms by (simp add: intercept_def bind_def getitem_first)

lemma distances_valid:
  assumes "length es = length ps" "\<forall>p\<in>set ps. to_float p = Inr (of_int64 p)"
  shows "distances ps es (chord_slope ps es) (chord_intercept ps es)
         = Inr (map (below_line ps es) [0..<length ps])"
proof -
  have "map2 fsub (map (\<lambda>p. fadd (fmul (of_int64 p) (chord_slope ps es)) (chord_intercept ps es)) ps) es
        = map (below_line ps es) [0..<length ps]"
    using assms(1)
    by (intro nth_equalityI) (simp_all add: below_line_def fmul_commute)
  then show ?thesis
    using assms by (simp add: distances_def array_sub_def line_values_converted bind_def)
qed

lemma best_n_converted:
  assumes "ps \<noteq> []" "length es = length ps" "last ps \<noteq> hd ps"
    and "\<forall>p\<in>set ps. to_float p = Inr (of_int64 p)"
    and "to_float (last ps - hd ps) = Inr (of_int64 (last ps - hd ps))"
  shows "best_n k ps es = array_argmax ps (map (below_line ps es) [0..<length ps])"
proof -
  have es: "es \<noteq> []" using assms by auto
  have "to_float (hd ps) = Inr (of_int64 (hd ps))" using assms(1,4) by simp
  then show ?thesis
    using assms es
    by (simp add: best_n_def bind_def slope_valid intercept_valid
        distances_valid chord_intercept_def[symmetric])
qed

lemma best_n_argmax:
  assumes "ps \<noteq> []" "length es = length ps" "last ps \<noteq> hd ps" "\<forall>p\<in>set ps. in_int64 p"
  shows "best_n k ps es = argmax (map (below_line ps es) [0..<length ps])"
proof -
  have "in_int64 (last ps)" "in_int64 (hd ps)" using assms(1,4) by simp_all
  then have "to_float (last ps - hd ps) = Inr (of_int64 (last ps - hd ps))"
    by (rule to_float_range)
  moreover have "\<forall>p\<in>set ps. to_float p = Inr (of_int64 p)"
    using assms(4) to_float_int64 by blast
  ultimately show ?thesis
    using best_n_converted[OF assms(1-3), of k] int64_not_object[OF assms(4)]
    by (simp add: array_argmax_def)
qed

lemma best_value_valid:
  assumes "ps \<noteq> []" "length es = length ps" "last ps \<noteq> hd ps" "\<forall>p\<in>set ps. in_int64 p"
  shows "\<exists>b<length ps. best_n k ps es = Inr b \<and> best_value k ps es = Inr (ps ! b)
           \<and> argmax_spec (map (below_line ps es) [0..<length ps]) b"
proof -
  have "map (below_line ps es) [0..<length ps] \<noteq> []" using assms by simp
  from argmax_meets_spec[OF this] obtain b where
    b: "argmax (map (below_line ps es) [0..<length ps]) = Inr b"
       "argmax_spec (map (below_line ps es) [0..<length ps]) b"
    by blast
  have bn: "best_n k ps es = Inr b" using best_n_argmax[OF assms, of k] b(1) by simp
  have lt: "b < length ps" using b(2) by (simp add: argmax_spec_def)
  then have "best_value k ps es = Inr (ps ! b)"
    using bn by (simp add: best_value_def bind_def getitem_nth)
  with b bn lt show ?thesis by blast
qed

section \<open>Sweeps with a zero range\<close>

lemma of_int64_zero: "of_int64 0 = Fin 0"
  by (simp add: of_int64_def round64_def)

lemma fdiv_zero: "fdiv x (Fin 0) = PInf \<or> fdiv x (Fin 0) = NInf \<or> fdiv x (Fin 0) = NaN"
  by (cases x) (simp_all add: inf_of_sign_def)

lemma inf_of_sign_cases: "inf_of_sign t = PInf \<or> inf_of_sign t = NInf \<or> inf_of_sign t = NaN"
  by (simp add: inf_of_sign_def)

lemma fmul_infinite:
  assumes "s = PInf \<or> s = NInf \<or> s = NaN"
  shows "fmul s y = PInf \<or> fmul s y = NInf \<or> fmul s y = NaN"
proof -
  consider "s = PInf" | "s = NInf" | "s = NaN" using assms by blast
  then show ?thesis
    by cases (cases y; simp add: inf_of_sign_cases)+
qed

lemma cancel_infinite:
  assumes "t = PInf \<or> t = NInf \<or> t = NaN"
  shows "fsub (fadd t (fsub e t)) e' = NaN"
  using assms by (cases e; cases e') (auto simp: fsub_def)

lemma degenerate_first_distance:
  assumes "s = fdiv x (Fin 0)"
  shows "fsub (fadd (fmul y s) (fsub e (fmul s y))) e' = NaN"
proof -
  have "fmul s y = PInf \<or> fmul s y = NInf \<or> fmul s y = NaN"
    using assms fdiv_zero fmul_infinite by blast
  then show ?thesis
    using cancel_infinite by (simp add: fmul_commute[of y s])
qed

lemma best_value_zero_range:
  assumes "n_est \<noteq> []" "val_mad \<noteq> []" "last n_est = hd n_est"
  shows "best_value PyFloat n_est val_mad = Inl ZeroDivisionError"
  using assms
  by (simp add: best_value_def best_n_def slope_def bind_def getitem_last getitem_first
      truediv_def)

lemma best_value_degenerate:
  assumes "n_est \<noteq> []" "length val_mad = length n_est" "last n_est = hd n_est"
    and "\<forall>p\<in>set n_est. in_int64 p"
  shows "best_value NpFloat64 n_est val_mad = Inr (hd n_est)"
proof -
  obtain p ps where ps: "n_est = p # ps" using assms(1) by (cases n_est) auto
  obtain e es where es: "val_mad = e # es" using assms(2) ps by (cases val_mad) auto
  have ne: "val_mad \<noteq> []" using es by simp
  have conv: "\<forall>p\<in>set n_est. to_float p = Inr (of_int64 p)"
    using assms(4) to_float_int64 by blast
  then have convp: "to_float p = Inr (of_int64 p)" using ps by simp
  define s where "s = fdiv (fsub (last val_mad) (hd val_mad)) (Fin 0)"
  have "to_float 0 = Inr (Fin 0)" by (simp add: to_float_def of_int64_zero)
  then have sl: "slope NpFloat64 n_est val_mad = Inr s"
    using assms(1,3) ne
    by (simp add: slope_def bind_def getitem_last getitem_first truediv_def s_def)
  have ic: "intercept n_est val_mad s = Inr (fsub e (fmul s (of_int64 p)))"
    using ps es convp by (simp add: intercept_valid)
  have d0: "fsub (fadd (fmul (of_int64 p) s) (fsub e (fmul s (of_int64 p)))) e = NaN"
    using degenerate_first_distance[OF s_def] .
  have "\<exists>ds. distances n_est val_mad s (fsub e (fmul s (of_int64 p))) = Inr (NaN # ds)"
    using assms(2) ps es d0 conv
    by (simp add: distances_def array_sub_def line_values_converted bind_def)
  then have "best_n NpFloat64 n_est val_mad = Inr 0"
    using sl ic int64_not_object[OF assms(4)]
    by (auto simp: best_n_def bind_def array_argmax_def argmax_def is_nan_def)
  then show ?thesis
    using assms(1) by (simp add: best_value_def bind_def getitem_first)
qed

lemma best_value_empty:
  "val_mad = [] \<or> n_est = [] \<Longrightarrow> best_value k n_est val_mad = Inl IndexError"
  by (cases "val_mad = []")
     (auto simp: best_value_def best_n_def slope_def bind_def getitem_def getitem_last getitem_first)

section \<open>Sweeps computed without rounding\<close>

lemma chord_slope_exact:
  assumes "es \<noteq> []" "last ps \<noteq> hd ps" "exact_sweep ps es"
  shows "chord_slope ps (map Fin es) = Fin (slope_exact ps es)"
  using assms
  by (simp add: chord_slope_def exact_sweep_def exact_def slope_exact_def fsub_def
      of_int64_def last_map hd_map)

lemma chord_intercept_exact:
  assumes "ps \<noteq> []" "length es = length ps" "last ps \<noteq> hd ps" "exact_sweep ps es"
  shows "chord_intercept ps (map Fin es) = Fin (intercept_exact ps es)"
proof -
  have es: "es \<noteq> []" using assms by auto
  have "exact_point (slope_exact ps es) (intercept_exact ps es) (ps ! 0) (es ! 0)"
    using assms by (simp add: exact_sweep_def)
  then have a: "round64 (of_int (hd ps)) = Fin (of_int (hd ps))"
    "round64 (slope_exact ps es * of_int (hd ps)) = Fin (slope_exact ps es * of_int (hd ps))"
    using assms(1) by (simp_all add: exact_point_def exact_def hd_conv_nth)
  have b: "round64 (hd es - slope_exact ps es * of_int (hd ps))
           = Fin (hd es - slope_exact ps es * of_int (hd ps))"
    using assms(4) by (simp add: exact_sweep_def intercept_exact_def exact_def)
  show ?thesis
    using es a b
    by (simp add: chord_intercept_def chord_slope_exact[OF es assms(3,4)] hd_map
        of_int64_def fsub_def intercept_exact_def)
qed

lemma below_line_exact:
  assumes "ps \<noteq> []" "length es = length ps" "last ps \<noteq> hd ps" "exact_sweep ps es"
    and "j < length ps"
  shows "below_line ps (map Fin es) j = Fin (below_exact ps es j)"
proof -
  have es: "es \<noteq> []" using assms by auto
  have "exact_point (slope_exact ps es) (intercept_exact ps es) (ps ! j) (es ! j)"
    using assms by (simp add: exact_sweep_def)
  then show ?thesis
    using assms(2,5)
    by (simp add: below_line_def chord_slope_exact[OF es assms(3,4)]
        chord_intercept_exact[OF assms(1-4)] exact_point_def exact_def of_int64_def
        fsub_def below_exact_def)
qed

lemma exact_sweep_converts:
  assumes "ps \<noteq> []" "exact_sweep ps es"
  shows "\<forall>p\<in>set ps. to_float p = Inr (of_int64 p)"
    and "to_float (last ps - hd ps) = Inr (of_int64 (last ps - hd ps))"
proof -
  show "\<forall>p\<in>set ps. to_float p = Inr (of_int64 p)"
  proof
    fix p assume "p \<in> set ps"
    then obtain j where "j < length ps" "ps ! j = p" by (auto simp: in_set_conv_nth)
    then have "exact (of_int p)"
      using assms(2) by (auto simp: exact_sweep_def exact_point_def)
    then show "to_float p = Inr (of_int64 p)" by (rule to_float_exact)
  qed
  have "exact (of_int (last ps - hd ps))" using assms(2) by (simp add: exact_sweep_def)
  then show "to_float (last ps - hd ps) = Inr (of_int64 (last ps - hd ps))"
    by (rule to_float_exact)
qed

lemma best_n_exact:
  assumes "ps \<noteq> []" "length es = length ps" "last ps \<noteq> hd ps" "exact_sweep ps es"
  shows "best_n k ps (map Fin es)
         = argmax (map (\<lambda>j. Fin (below_exact ps es j)) [0..<length ps])"
proof -
  have len: "length (map Fin es) = length ps" using assms(2) by simp
  have same: "map (below_line ps (map Fin es)) [0..<length ps]
              = map (\<lambda>j. Fin (below_exact ps es j)) [0..<length ps]"
    using below_line_exact[OF assms] by simp
  have "\<forall>x\<in>set (map (\<lambda>j. Fin (below_exact ps es j)) [0..<length ps]). \<not> is_nan x"
    by (auto simp: is_nan_def)
  then have "array_argmax ps (map (\<lambda>j. Fin (below_exact ps es j)) [0..<length ps])
             = argmax (map (\<lambda>j. Fin (below_exact ps es j)) [0..<length ps])"
    by (simp only: array_argmax_def argmax_object_eq if_cancel)
  then show ?thesis
    using best_n_converted[OF assms(1) len assms(3) exact_sweep_converts[OF assms(1,4)], of k]
    by (simp only: same)
qed

lemma best_value_exact:
  assumes "ps \<noteq> []" "length es = length ps" "last ps \<noteq> hd ps" "exact_sweep ps es"
  shows "\<exists>b<length ps. best_value k ps (map Fin es) = Inr (ps ! b)
           \<and> (\<forall>j<b. below_exact ps es j < below_exact ps es b)
           \<and> (\<forall>j<length ps. below_exact ps es j \<le> below_exact ps es b)"
proof -
  let ?ds = "map (\<lambda>j. Fin (below_exact ps es j)) [0..<length ps]"
  have "?ds \<noteq> []" using assms(1) by simp
  from argmax_meets_spec[OF this] obtain b where
    b: "argmax ?ds = Inr b" "argmax_spec ?ds b" by blast
  have lt: "b < length ps" using b(2) by (simp add: argmax_spec_def)
  have "best_n k ps (map Fin es) = Inr b" using best_n_exact[OF assms, of k] b(1) by simp
  then have bv: "best_value k ps (map Fin es) = Inr (ps ! b)"
    using lt by (simp add: best_value_def bind_def getitem_nth)
  have nth: "?ds ! j = Fin (below_exact ps es j)" if "j < length ps" for j
    using that by simp
  have before: "\<forall>j<b. \<not> fle (?ds ! b) (?ds ! j)"
    and top: "is_nan (?ds ! b) \<or> (\<forall>j<length ?ds. fle (?ds ! j) (?ds ! b))"
    using b(2) unfolding argmax_spec_def by blast+
  have "below_exact ps es j < below_exact ps es b" if "j < b" for j
  proof -
    have "j < length ps" using that lt by simp
    moreover have "\<not> fle (?ds ! b) (?ds ! j)" using before that by blast
    ultimately show ?thesis using nth[OF lt] nth[of j] by simp
  qed
  moreover have "below_exact ps es j \<le> below_exact ps es b" if "j < length ps" for j
  proof -
    have "\<not> is_nan (?ds ! b)" using nth[OF lt] by (simp add: is_nan_def)
    then have "fle (?ds ! j) (?ds ! b)" using top that by simp
    then show ?thesis using nth[OF lt] nth[OF that] by simp
  qed
  ultimately show ?thesis using lt bv by blast
qed

lemma convex_above:
  fixes e1 en ej :: real
  assumes "ej < e1" "ej < en" "0 < t" "t < 1"
  shows "ej < (1 - t) * e1 + t * en"
proof -
  have "0 < (1 - t) * (e1 - ej) + t * (en - ej)"
    using assms by (intro add_pos_pos mult_pos_pos) simp_all
  then show ?thesis by (simp add: algebra_simps)
qed

lemma below_exact_shift:
  assumes "es \<noteq> []" "j < length es"
  shows "below_exact ps (map (\<lambda>e. e + c) es) j = below_exact ps es j"
  using assms
  by (simp add: below_exact_def slope_exact_def intercept_exact_def last_map hd_map)

section \<open>Evaluation\<close>

text \<open>The equations that evaluate binary64 arithmetic and the cell on concrete inputs.\<close>

lemmas f64_eval = round64_def pow2_def floor_log2_def lift_exp_def round_half_even_def
  tie_even_def quantum_def round_at_def fin_or_inf_def of_int64_def fsub_def inf_of_sign_def

lemmas cell_eval = best_value_def best_n_def slope_def intercept_def distances_def
  array_sub_def argmax_def bind_def getitem_def truediv_def is_nan_def to_float_def
  array_argmax_def object_array_def argmax_object_def flt_def in_int64_def

lemmas exact_eval = exact_sweep_def exact_point_def exact_def slope_exact_def
  intercept_exact_def below_exact_def All_less_Suc

text \<open>
  Some roundings, as Python's \<open>float\<close> gives them: \<open>1/3\<close> and \<open>1/10\<close>, a tie
  between two neighbours (\<open>2^53 + 1\<close> goes to the even \<open>2^53\<close>, \<open>2^53 + 3\<close> to
  \<open>2^53 + 4\<close>), the smallest subnormal number, underflow to zero and overflow.
\<close>

lemma round64_examples:
  "round64 (1 / 3) = Fin (6004799503160661 / 2 ^ 54)"
  "round64 (1 / 10) = Fin (3602879701896397 / 2 ^ 55)"
  "of_int64 (2 ^ 53 + 1) = Fin (2 ^ 53)"
  "of_int64 (2 ^ 53 + 3) = Fin (2 ^ 53 + 4)"
  "fmul (Fin (1 / 2 ^ 1000)) (Fin (3 / 2 ^ 75)) = Fin (1 / 2 ^ 1073)"
  "round64 (1 / 2 ^ 1075) = Fin 0"
  "round64 (3 / 2 ^ 1076) = Fin (1 / 2 ^ 1074)"
  "fadd (Fin (2 ^ 1023)) (Fin (2 ^ 1023)) = PInf"
  "round64 (2 ^ 1024 - 2 ^ 970 - 1) = Fin (2 ^ 1024 - 2 ^ 971)"
  "fdiv (Fin 1) (Fin 0) = PInf" "fdiv (Fin 0) (Fin 0) = NaN" "fmul PInf (Fin 0) = NaN"
  by (simp_all add: f64_eval)

text \<open>
  The conversion of a Python integer: \<open>float(2**1024 - 2**970 - 1)\<close> is the largest
  binary64 number, and from \<open>2**1024 - 2**970\<close> on the conversion raises.
\<close>

lemma to_float_examples:
  "to_float (2 ^ 53 + 1) = Inr (Fin (2 ^ 53))"
  "to_float (2 ^ 1024 - 2 ^ 970 - 1) = Inr (Fin (2 ^ 1024 - 2 ^ 971))"
  "to_float (2 ^ 1024 - 2 ^ 970) = Inl OverflowError"
  "to_float (- (2 ^ 1024)) = Inl OverflowError"
  by (simp_all add: to_float_def f64_eval)

text \<open>
  The two arg-max routines on the distances \<open>[0, NaN, 0]\<close>: an \<open>int64\<close> sweep
  selects the NaN, a sweep holding \<open>2^64\<close> (an array of objects) the first element.
\<close>

lemma object_array_examples:
  "array_argmax [1, 2, 3] [Fin 0, NaN, Fin 0] = Inr 1"
  "array_argmax [1, 2, 2 ^ 64] [Fin 0, NaN, Fin 0] = Inr 0"
  "best_value PyFloat [1, 2, 2 ^ 64] [Fin 3, NaN, Fin 2] = Inr 1"
  by (simp_all add: cell_eval f64_eval)

section \<open>The selected parameter value\<close>

text \<open>
  Against claim C1: with the strictly increasing parameter values \<open>[1, 2^1024]\<close> and
  Python-float errors the slope's divisor \<open>2^1024 - 1\<close> is too large to convert to a
  float, and the cell raises \<open>OverflowError\<close>. With \<open>[4, 6, 8]\<close> and the finite
  errors \<open>[3 * 2^1022, 0, 2^1022]\<close> the intercept overflows to \<open>inf\<close>, the distances
  are \<open>[inf, inf, NaN]\<close> and the cell prints \<open>8\<close>, whose distance, a NaN, is not the
  greatest.
\<close>

theorem maximizes_counterexample:
  "sorted_wrt (<) [1, 2 ^ 1024 :: int]
   \<and> best_value PyFloat [1, 2 ^ 1024] [Fin 1, Fin 2] = Inl OverflowError
   \<and> sorted_wrt (<) [4, 6, 8 :: int]
   \<and> below_line [4, 6, 8] [Fin (3 * 2 ^ 1022), Fin 0, Fin (2 ^ 1022)] 0 = PInf
   \<and> below_line [4, 6, 8] [Fin (3 * 2 ^ 1022), Fin 0, Fin (2 ^ 1022)] 2 = NaN
   \<and> \<not> fle PInf NaN
   \<and> best_value PyFloat [4, 6, 8] [Fin (3 * 2 ^ 1022), Fin 0, Fin (2 ^ 1022)] = Inr 8
   \<and> best_value NpFloat64 [4, 6, 8] [Fin (3 * 2 ^ 1022), Fin 0, Fin (2 ^ 1022)] = Inr 8"
  by (simp add: below_line_def chord_slope_def chord_intercept_def cell_eval f64_eval)

text \<open>
  Claim C1, amended. On a sweep of at least two points whose parameter values fit
  \<open>int64\<close> and whose first and last parameter values differ, with one error per
  parameter value, the cell computes the slope \<open>(e_n - e_1) / (p_n - p_1)\<close> and the
  intercept \<open>e_1 - slope * p_1\<close> in binary64 and prints a parameter value \<open>p_b\<close> of the
  sweep. When no computed distance \<open>(slope * p_j + intercept) - e_j\<close> is a NaN, the one
  at \<open>b\<close> is the greatest; when some distance is a NaN (which finite errors produce by
  overflow), \<open>b\<close> is the index of the first NaN.
\<close>

theorem best_value_maximizes:
  assumes "2 \<le> length ps" "last ps \<noteq> hd ps" "length es = length ps"
    and "\<forall>p\<in>set ps. in_int64 p"
  shows "slope k ps es = Inr (chord_slope ps es)
     \<and> intercept ps es (chord_slope ps es) = Inr (chord_intercept ps es)
     \<and> (\<exists>b<length ps. best_value k ps es = Inr (ps ! b)
          \<and> ((\<forall>j<length ps. \<not> is_nan (below_line ps es j))
               \<longrightarrow> (\<forall>j<length ps. fle (below_line ps es j) (below_line ps es b)))
          \<and> ((\<exists>j<length ps. is_nan (below_line ps es j))
               \<longrightarrow> is_nan (below_line ps es b)
                   \<and> (\<forall>j<b. \<not> is_nan (below_line ps es j))))"
proof -
  have ps: "ps \<noteq> []" and es: "es \<noteq> []" using assms by auto
  have c1: "to_float (hd ps) = Inr (of_int64 (hd ps))"
    using ps assms(4) by (simp add: to_float_int64)
  have c2: "to_float (last ps - hd ps) = Inr (of_int64 (last ps - hd ps))"
    using ps assms(4) by (intro to_float_range) simp_all
  from best_value_valid[OF ps assms(3,2,4), of k] obtain b where
    b: "b < length ps" "best_value k ps es = Inr (ps ! b)"
       "argmax_spec (map (below_line ps es) [0..<length ps]) b"
    by blast
  from b(3) b(1) have top:
    "is_nan (below_line ps es b) \<or> (\<forall>j<length ps. fle (below_line ps es j) (below_line ps es b))"
    and before: "\<forall>j<b. \<not> is_nan (below_line ps es j)"
    by (simp_all add: argmax_spec_def)
  have "\<forall>j<length ps. fle (below_line ps es j) (below_line ps es b)"
    if "\<forall>j<length ps. \<not> is_nan (below_line ps es j)"
    using top that b(1) by blast
  moreover have "is_nan (below_line ps es b)"
    if "\<exists>j<length ps. is_nan (below_line ps es j)"
    using top that fle_not_nan by blast
  ultimately have "\<exists>b<length ps. best_value k ps es = Inr (ps ! b)
          \<and> ((\<forall>j<length ps. \<not> is_nan (below_line ps es j))
               \<longrightarrow> (\<forall>j<length ps. fle (below_line ps es j) (below_line ps es b)))
          \<and> ((\<exists>j<length ps. is_nan (below_line ps es j))
               \<longrightarrow> is_nan (below_line ps es b)
                   \<and> (\<forall>j<b. \<not> is_nan (below_line ps es j)))"
    using b(1,2) before by blast
  then show ?thesis
    using ps es assms(2) c1 c2 by (simp add: slope_valid intercept_valid chord_intercept_def)
qed

theorem best_value_maximizes_witness:
  "slope PyFloat [1, 2, 3] [Fin 3, Fin 1, Fin 2] = Inr (Fin (- 1 / 2))
   \<and> (\<exists>b<length [1, 2, 3 :: int].
        best_value PyFloat [1, 2, 3] [Fin 3, Fin 1, Fin 2] = Inr ([1, 2, 3] ! b)
        \<and> fle (below_line [1, 2, 3] [Fin 3, Fin 1, Fin 2] 0)
              (below_line [1, 2, 3] [Fin 3, Fin 1, Fin 2] b)
        \<and> fle (below_line [1, 2, 3] [Fin 3, Fin 1, Fin 2] 1)
              (below_line [1, 2, 3] [Fin 3, Fin 1, Fin 2] b)
        \<and> fle (below_line [1, 2, 3] [Fin 3, Fin 1, Fin 2] 2)
              (below_line [1, 2, 3] [Fin 3, Fin 1, Fin 2] b))"
proof -
  have h: "2 \<le> length [1, 2, 3 :: int]" "last [1, 2, 3 :: int] \<noteq> hd [1, 2, 3]"
    "length [Fin 3, Fin 1, Fin 2] = length [1, 2, 3 :: int]"
    "\<forall>p\<in>set [1, 2, 3 :: int]. in_int64 p"
    by (simp_all add: in_int64_def)
  note bm = best_value_maximizes[OF h, of PyFloat]
  have sl: "chord_slope [1, 2, 3] [Fin 3, Fin 1, Fin 2] = Fin (- 1 / 2)"
    by (simp add: chord_slope_def f64_eval)
  have nn: "\<forall>j<length [1, 2, 3 :: int]. \<not> is_nan (below_line [1, 2, 3] [Fin 3, Fin 1, Fin 2] j)"
    by (simp add: below_line_def chord_slope_def chord_intercept_def f64_eval All_less_Suc
        is_nan_def)
  from bm obtain b where b: "b < length [1, 2, 3 :: int]"
    "best_value PyFloat [1, 2, 3] [Fin 3, Fin 1, Fin 2] = Inr ([1, 2, 3] ! b)"
    "(\<forall>j<length [1, 2, 3 :: int]. \<not> is_nan (below_line [1, 2, 3] [Fin 3, Fin 1, Fin 2] j))
      \<longrightarrow> (\<forall>j<length [1, 2, 3 :: int]. fle (below_line [1, 2, 3] [Fin 3, Fin 1, Fin 2] j)
                (below_line [1, 2, 3] [Fin 3, Fin 1, Fin 2] b))"
    by blast
  from b(3) nn have "\<forall>j<length [1, 2, 3 :: int]. fle (below_line [1, 2, 3] [Fin 3, Fin 1, Fin 2] j)
                (below_line [1, 2, 3] [Fin 3, Fin 1, Fin 2] b)" by (rule mp)
  then have "fle (below_line [1, 2, 3] [Fin 3, Fin 1, Fin 2] 0)
              (below_line [1, 2, 3] [Fin 3, Fin 1, Fin 2] b)
        \<and> fle (below_line [1, 2, 3] [Fin 3, Fin 1, Fin 2] 1)
              (below_line [1, 2, 3] [Fin 3, Fin 1, Fin 2] b)
        \<and> fle (below_line [1, 2, 3] [Fin 3, Fin 1, Fin 2] 2)
              (below_line [1, 2, 3] [Fin 3, Fin 1, Fin 2] b)"
    by simp
  with b(1,2) bm sl show ?thesis by auto
qed

text \<open>
  Claim C2. On the parameter values \<open>[1,2,3,4,5]\<close> with the errors
  \<open>[10, 8, 3, 7, 9]\<close> the slope is \<open>-0.25\<close>, the line values are
  \<open>[10, 9.75, 9.5, 9.25, 9]\<close>, the distances below the line are
  \<open>[0, 1.75, 6.5, 2.25, 0]\<close> and the cell prints the parameter value \<open>3\<close>.
\<close>

theorem elbow_example:
  "slope k [1, 2, 3, 4, 5] [Fin 10, Fin 8, Fin 3, Fin 7, Fin 9] = Inr (Fin (- 1 / 4))
   \<and> intercept [1, 2, 3, 4, 5] [Fin 10, Fin 8, Fin 3, Fin 7, Fin 9] (Fin (- 1 / 4))
       = Inr (Fin (41 / 4))
   \<and> line_values [1, 2, 3, 4, 5] (Fin (- 1 / 4)) (Fin (41 / 4))
       = Inr [Fin 10, Fin (39 / 4), Fin (19 / 2), Fin (37 / 4), Fin 9]
   \<and> distances [1, 2, 3, 4, 5] [Fin 10, Fin 8, Fin 3, Fin 7, Fin 9] (Fin (- 1 / 4)) (Fin (41 / 4))
       = Inr [Fin 0, Fin (7 / 4), Fin (13 / 2), Fin (9 / 4), Fin 0]
   \<and> best_n k [1, 2, 3, 4, 5] [Fin 10, Fin 8, Fin 3, Fin 7, Fin 9] = Inr 2
   \<and> best_value k [1, 2, 3, 4, 5] [Fin 10, Fin 8, Fin 3, Fin 7, Fin 9] = Inr 3"
  by (simp add: cell_eval f64_eval)

text \<open>
  Against claim C4: with the strictly increasing parameter values \<open>[1, 2^1024]\<close> and the
  Python-float errors \<open>[3, 1]\<close> the cell raises \<open>OverflowError\<close> in the slope and
  prints nothing.
\<close>

theorem in_sweep_counterexample:
  "sorted_wrt (<) [1, 2 ^ 1024 :: int]
   \<and> slope PyFloat [1, 2 ^ 1024] [Fin 3, Fin 1] = Inl OverflowError
   \<and> best_value PyFloat [1, 2 ^ 1024] [Fin 3, Fin 1] = Inl OverflowError"
  by (simp add: cell_eval f64_eval)

text \<open>
  Claim C4, amended. On a sweep of at least two points whose parameter values fit
  \<open>int64\<close>, with a nonzero parameter range and one error per parameter value, the
  printed value is an element of the parameter sequence.
\<close>

theorem best_value_in_sweep:
  assumes "2 \<le> length ps" "last ps \<noteq> hd ps" "length es = length ps"
    and "\<forall>p\<in>set ps. in_int64 p"
  shows "\<exists>v \<in> set ps. best_value k ps es = Inr v"
proof -
  have ps: "ps \<noteq> []" using assms by auto
  from best_value_valid[OF ps assms(3,2,4), of k] obtain b where
    "b < length ps" "best_value k ps es = Inr (ps ! b)" by blast
  then show ?thesis using nth_mem by blast
qed

theorem best_value_in_sweep_witness:
  "\<exists>v \<in> set [1, 2, 3]. best_value NpFloat64 [1, 2, 3] [Fin 3, Fin 1, Fin 2] = Inr v"
  using best_value_in_sweep[of "[1, 2, 3]" "[Fin 3, Fin 1, Fin 2]" NpFloat64]
  by (simp add: in_int64_def)

text \<open>
  Against claim C10: with the parameter values \<open>[2^1024, 2^1024 + 1]\<close> and the
  Python-float errors \<open>[2, 1]\<close> the slope is \<open>-1\<close>, and \<open>slope*n_est[0]\<close> raises
  \<open>OverflowError\<close>: the cell fails before any arg-max is taken.
\<close>

theorem in_bounds_counterexample:
  "sorted_wrt (<) [2 ^ 1024, 2 ^ 1024 + 1 :: int]
   \<and> slope PyFloat [2 ^ 1024, 2 ^ 1024 + 1] [Fin 2, Fin 1] = Inr (Fin (- 1))
   \<and> intercept [2 ^ 1024, 2 ^ 1024 + 1] [Fin 2, Fin 1] (Fin (- 1)) = Inl OverflowError
   \<and> best_n PyFloat [2 ^ 1024, 2 ^ 1024 + 1] [Fin 2, Fin 1] = Inl OverflowError
   \<and> best_value PyFloat [2 ^ 1024, 2 ^ 1024 + 1] [Fin 2, Fin 1] = Inl OverflowError"
  by (simp add: cell_eval f64_eval)

text \<open>
  Claim C10, amended. On a sweep of at least two points whose parameter values fit
  \<open>int64\<close>, with a nonzero parameter range and one error per parameter value, the
  arg-max is an index \<open>b\<close> below the length of the parameter sequence, so the lookup
  \<open>n_est[best_n]\<close> is in bounds and the cell does not fail.
\<close>

theorem best_n_in_bounds:
  assumes "2 \<le> length ps" "last ps \<noteq> hd ps" "length es = length ps"
    and "\<forall>p\<in>set ps. in_int64 p"
  shows "\<exists>b. best_n k ps es = Inr b \<and> b < length ps
           \<and> getitem ps (int b) = Inr (ps ! b) \<and> best_value k ps es = Inr (ps ! b)"
proof -
  have ps: "ps \<noteq> []" using assms by auto
  from best_value_valid[OF ps assms(3,2,4), of k] obtain b where
    "b < length ps" "best_n k ps es = Inr b" "best_value k ps es = Inr (ps ! b)" by blast
  then show ?thesis using getitem_nth by blast
qed

theorem best_n_in_bounds_witness:
  "\<exists>b. best_n PyFloat [1, 2, 3] [Fin 3, Fin 1, Fin 2] = Inr b \<and> b < length [1, 2, 3 :: int]
      \<and> getitem [1, 2, 3 :: int] (int b) = Inr ([1, 2, 3] ! b)
      \<and> best_value PyFloat [1, 2, 3] [Fin 3, Fin 1, Fin 2] = Inr ([1, 2, 3] ! b)"
  using best_n_in_bounds[of "[1, 2, 3]" "[Fin 3, Fin 1, Fin 2]" PyFloat]
  by (simp add: in_int64_def)

section \<open>Sweeps the contract excludes\<close>

text \<open>
  Against claim C7: on the parameter values \<open>[4, 4]\<close> with numpy \<open>float64\<close> errors
  \<open>[1, 2]\<close> the slope is \<open>1/0 = inf\<close>, every distance is a NaN and the cell prints
  \<open>4\<close>; nothing is raised.
\<close>

theorem degenerate_sweep_counterexample:
  "last [4, 4 :: int] = hd [4, 4] \<and> best_value NpFloat64 [4, 4] [Fin 1, Fin 2] = Inr 4"
  by (simp add: cell_eval f64_eval)

text \<open>
  Claim C7, amended. When the first and the last parameter value are equal (both
  sequences non-empty and of the same length), the cell raises Python's
  \<open>ZeroDivisionError\<close> from the slope if the errors are Python floats, and that
  exception is not caught. If the errors are numpy \<open>float64\<close> scalars, as
  \<open>mean_absolute_error\<close> returns them, and the parameter values fit \<open>int64\<close>, the
  division gives an infinity or a NaN, the first distance is a NaN and the cell prints the
  first parameter value without failing. There is no \<open>DegenerateSweepError\<close>.
\<close>

theorem degenerate_sweep:
  assumes "n_est \<noteq> []" "length val_mad = length n_est" "last n_est = hd n_est"
  shows "best_value PyFloat n_est val_mad = Inl ZeroDivisionError
       \<and> ((\<forall>p\<in>set n_est. in_int64 p) \<longrightarrow> best_value NpFloat64 n_est val_mad = Inr (hd n_est))"
proof -
  have "val_mad \<noteq> []" using assms(1,2) by auto
  then show ?thesis
    using best_value_zero_range[OF assms(1) _ assms(3)] best_value_degenerate[OF assms]
    by blast
qed

theorem degenerate_sweep_witness:
  "best_value PyFloat [4, 4] [Fin 1, Fin 2] = Inl ZeroDivisionError
   \<and> best_value NpFloat64 [4, 4] [Fin 1, Fin 2] = Inr 4"
  using degenerate_sweep[of "[4, 4]" "[Fin 1, Fin 2]"] by (simp add: in_int64_def)

text \<open>
  Against claim C6: the parameter values \<open>[2, 1]\<close> are not strictly increasing and the
  cell prints \<open>2\<close>; the errors \<open>[NaN, 1]\<close> are not finite and the cell prints
  \<open>1\<close>.
\<close>

theorem no_validation_counterexample:
  "\<not> sorted_wrt (<) [2, 1 :: int]
   \<and> best_value PyFloat [2, 1] [Fin 1, Fin 0] = Inr 2
   \<and> best_value NpFloat64 [2, 1] [Fin 1, Fin 0] = Inr 2
   \<and> best_value PyFloat [1, 2] [NaN, Fin 1] = Inr 1
   \<and> best_value NpFloat64 [1, 2] [NaN, Fin 1] = Inr 1"
  by (simp add: cell_eval f64_eval)

text \<open>
  Claim C6, amended. The cell validates nothing and has no \<open>InvalidSweepError\<close>. It
  fails with \<open>IndexError\<close> when a sequence is empty. On a single point it raises
  \<open>ZeroDivisionError\<close> for Python-float errors and, when the parameter value fits
  \<open>int64\<close>, prints it for numpy \<open>float64\<close> errors. Whenever the sequences are
  non-empty and of the same length, the parameter values fit \<open>int64\<close> and the first and
  last of them differ, it prints a parameter value of the sweep, whether or not the
  parameter values increase and whether or not the errors are finite.
\<close>

theorem no_validation:
  "(val_mad = [] \<or> n_est = [] \<longrightarrow> best_value k n_est val_mad = Inl IndexError)
   \<and> (length n_est = 1 \<and> length val_mad = 1 \<longrightarrow>
        best_value PyFloat n_est val_mad = Inl ZeroDivisionError
        \<and> (in_int64 (hd n_est) \<longrightarrow> best_value NpFloat64 n_est val_mad = Inr (hd n_est)))
   \<and> (n_est \<noteq> [] \<and> length val_mad = length n_est \<and> last n_est \<noteq> hd n_est
        \<and> (\<forall>p\<in>set n_est. in_int64 p) \<longrightarrow>
        (\<exists>b<length n_est. best_value k n_est val_mad = Inr (n_est ! b)))"
proof (intro conjI impI)
  assume "val_mad = [] \<or> n_est = []"
  then show "best_value k n_est val_mad = Inl IndexError" by (rule best_value_empty)
next
  assume a: "length n_est = 1 \<and> length val_mad = 1"
  then obtain p where p: "n_est = [p]" by (cases n_est) auto
  with a have h: "n_est \<noteq> []" "length val_mad = length n_est" "last n_est = hd n_est" by auto
  then have "val_mad \<noteq> []" by auto
  from best_value_zero_range[OF h(1) this h(3)]
  show "best_value PyFloat n_est val_mad = Inl ZeroDivisionError" .
  assume "in_int64 (hd n_est)"
  then have "\<forall>p\<in>set n_est. in_int64 p" using p by simp
  from best_value_degenerate[OF h this]
  show "best_value NpFloat64 n_est val_mad = Inr (hd n_est)" .
next
  assume "n_est \<noteq> [] \<and> length val_mad = length n_est \<and> last n_est \<noteq> hd n_est
        \<and> (\<forall>p\<in>set n_est. in_int64 p)"
  then show "\<exists>b<length n_est. best_value k n_est val_mad = Inr (n_est ! b)"
    using best_value_valid[of n_est val_mad k] by blast
qed

theorem no_validation_witness:
  "best_value PyFloat [] [] = Inl IndexError
   \<and> best_value PyFloat [7] [Fin 1] = Inl ZeroDivisionError
   \<and> best_value NpFloat64 [7] [Fin 1] = Inr 7
   \<and> (\<exists>b<length [2, 1 :: int]. best_value PyFloat [2, 1] [Fin 1, PInf] = Inr ([2, 1] ! b))"
  using no_validation[of "[]" "[]" PyFloat] no_validation[of "[Fin 1]" "[7]" PyFloat]
    no_validation[of "[Fin 1, PInf]" "[2, 1]" PyFloat]
  by (simp add: in_int64_def)

section \<open>The cell as a step of the session\<close>

text \<open>
  Against claim C8: the cell changes the session. On \<open>n_est = [1, 2]\<close> with three
  errors it binds \<open>slope = 2\<close> and \<open>intercept = -1\<close> and then fails with
  \<open>ValueError\<close>, leaving both bound; on \<open>[1, 2, 3]\<close> with the errors
  \<open>[3, 1, 2]\<close> it binds \<open>slope\<close>, \<open>intercept\<close> and \<open>best_n\<close> and prints \<open>2\<close>.
\<close>

theorem side_effects_counterexample:
  "run_cell PyFloat \<lparr>g_n_est = [1, 2], g_val_mad = [Fin 1, Fin 2, Fin 3], g_slope = None,
       g_intercept = None, g_best_n = None, g_printed = []\<rparr>
     = (Some ValueError,
        \<lparr>g_n_est = [1, 2], g_val_mad = [Fin 1, Fin 2, Fin 3], g_slope = Some (Fin 2),
         g_intercept = Some (Fin (- 1)), g_best_n = None, g_printed = []\<rparr>)
   \<and> run_cell PyFloat \<lparr>g_n_est = [1, 2, 3], g_val_mad = [Fin 3, Fin 1, Fin 2], g_slope = None,
       g_intercept = None, g_best_n = None, g_printed = []\<rparr>
     = (None,
        \<lparr>g_n_est = [1, 2, 3], g_val_mad = [Fin 3, Fin 1, Fin 2], g_slope = Some (Fin (- 1 / 2)),
         g_intercept = Some (Fin (7 / 2)), g_best_n = Some 1, g_printed = [2]\<rparr>)"
  by (simp add: run_cell_def cell_eval f64_eval)

text \<open>
  Claim C8, amended. The cell leaves \<open>n_est\<close> and \<open>val_mad\<close> as they were, whether
  it fails or not, and what it does is a function of these two sequences alone. It is not
  free of side effects: it binds \<open>slope\<close>, \<open>intercept\<close> and \<open>best_n\<close> in the
  session as far as it gets before a failure, and on success it prints the selected
  parameter value.
\<close>

theorem run_cell_effects:
  "g_n_est (snd (run_cell k g)) = g_n_est g
   \<and> g_val_mad (snd (run_cell k g)) = g_val_mad g
   \<and> fst (run_cell k g)
       = (case best_value k (g_n_est g) (g_val_mad g) of Inl e \<Rightarrow> Some e | Inr v \<Rightarrow> None)
   \<and> g_printed (snd (run_cell k g))
       = (case best_value k (g_n_est g) (g_val_mad g) of
            Inl e \<Rightarrow> g_printed g | Inr v \<Rightarrow> g_printed g @ [v])
   \<and> g_slope (snd (run_cell k g))
       = (case slope k (g_n_est g) (g_val_mad g) of Inl e \<Rightarrow> g_slope g | Inr s \<Rightarrow> Some s)
   \<and> g_intercept (snd (run_cell k g))
       = (case bind (slope k (g_n_est g) (g_val_mad g)) (intercept (g_n_est g) (g_val_mad g)) of
            Inl e \<Rightarrow> g_intercept g | Inr i \<Rightarrow> Some i)
   \<and> g_best_n (snd (run_cell k g))
       = (case best_n k (g_n_est g) (g_val_mad g) of Inl e \<Rightarrow> g_best_n g | Inr b \<Rightarrow> Some b)"
  by (simp add: run_cell_def best_value_def best_n_def bind_def split: sum.splits)

section \<open>Ties, a single dip and shifted errors\<close>

text \<open>
  Against claim C3: the errors \<open>[3, 2, 1]\<close> at the parameter values \<open>[1, 4, 7]\<close> lie
  exactly on the line through the first and the last point, yet binary64 rounds the slope
  \<open>-1/3\<close> and computes the distances \<open>[0, 0, 2^-51]\<close>: the cell prints \<open>7\<close>, not
  the first parameter value.
\<close>

theorem collinear_counterexample:
  "below_exact [1, 4, 7] [3, 2, 1] 0 = 0
   \<and> below_exact [1, 4, 7] [3, 2, 1] 1 = 0
   \<and> below_exact [1, 4, 7] [3, 2, 1] 2 = 0
   \<and> distances [1, 4, 7] [Fin 3, Fin 2, Fin 1] (chord_slope [1, 4, 7] [Fin 3, Fin 2, Fin 1])
        (chord_intercept [1, 4, 7] [Fin 3, Fin 2, Fin 1])
       = Inr [Fin 0, Fin 0, Fin (1 / 2 ^ 51)]
   \<and> best_value PyFloat [1, 4, 7] [Fin 3, Fin 2, Fin 1] = Inr 7
   \<and> best_value NpFloat64 [1, 4, 7] [Fin 3, Fin 2, Fin 1] = Inr 7"
  by (simp add: exact_eval chord_slope_def chord_intercept_def cell_eval f64_eval)

text \<open>
  Claim C3, amended. On a sweep of at least two points whose parameter values fit
  \<open>int64\<close>, with a nonzero parameter range, the cell prints the parameter value at the
  first index \<open>b\<close> of the maximal computed distance: no earlier distance is a NaN or
  reaches the one at \<open>b\<close>, which is a NaN or bounds all distances. In particular, when
  all computed distances are equal (all zero, for one) it prints the first parameter value.
  Errors that lie exactly on the line through the first and last point give this when the
  sweep is computed without rounding; in general they do not.
\<close>

theorem first_maximum:
  assumes "2 \<le> length ps" "last ps \<noteq> hd ps" "length es = length ps"
    and "\<forall>p\<in>set ps. in_int64 p"
  shows "(\<exists>b<length ps. best_value k ps es = Inr (ps ! b)
            \<and> (\<forall>j<b. \<not> is_nan (below_line ps es j)
                      \<and> \<not> fle (below_line ps es b) (below_line ps es j))
            \<and> (is_nan (below_line ps es b)
                 \<or> (\<forall>j<length ps. fle (below_line ps es j) (below_line ps es b))))
       \<and> ((\<forall>j<length ps. below_line ps es j = below_line ps es 0)
            \<longrightarrow> best_value k ps es = Inr (hd ps))
       \<and> (\<forall>rs. length rs = length ps \<and> exact_sweep ps rs
              \<and> (\<forall>j<length ps. below_exact ps rs j = 0)
            \<longrightarrow> best_value k ps (map Fin rs) = Inr (hd ps))"
proof -
  have ps: "ps \<noteq> []" using assms by auto
  from best_value_valid[OF ps assms(3,2,4), of k] obtain b where
    b: "b < length ps" "best_value k ps es = Inr (ps ! b)"
       "argmax_spec (map (below_line ps es) [0..<length ps]) b"
    by blast
  have before: "\<not> is_nan (below_line ps es j)
                \<and> \<not> fle (below_line ps es b) (below_line ps es j)" if "j < b" for j
    using b(1,3) that by (simp add: argmax_spec_def)
  have top: "is_nan (below_line ps es b)
             \<or> (\<forall>j<length ps. fle (below_line ps es j) (below_line ps es b))"
    using b(1,3) by (simp add: argmax_spec_def)
  have flat: "best_value k ps es = Inr (hd ps)"
    if eq: "\<forall>j<length ps. below_line ps es j = below_line ps es 0"
  proof -
    have "b = 0"
    proof (rule ccontr)
      assume "b \<noteq> 0"
      then have "0 < b" by simp
      from before[OF this] have "\<not> is_nan (below_line ps es 0)"
        "\<not> fle (below_line ps es b) (below_line ps es 0)" by simp_all
      moreover have "below_line ps es b = below_line ps es 0" using eq b(1) by simp
      ultimately show False using fle_refl by simp
    qed
    then show ?thesis using b(2) ps by (simp add: hd_conv_nth)
  qed
  have line: "best_value k ps (map Fin rs) = Inr (hd ps)"
    if len: "length rs = length ps" and ex: "exact_sweep ps rs"
      and zero: "\<forall>j<length ps. below_exact ps rs j = 0" for rs
  proof -
    from best_value_exact[OF ps len assms(2) ex, of k] obtain c where
      c: "c < length ps" "best_value k ps (map Fin rs) = Inr (ps ! c)"
         "\<forall>j<c. below_exact ps rs j < below_exact ps rs c"
      by blast
    have "c = 0"
    proof (rule ccontr)
      assume "c \<noteq> 0"
      then have "below_exact ps rs 0 < below_exact ps rs c" using c(3) by simp
      then show False using zero c(1) ps by simp
    qed
    then show ?thesis using c(2) ps by (simp add: hd_conv_nth)
  qed
  have "\<exists>b<length ps. best_value k ps es = Inr (ps ! b)
            \<and> (\<forall>j<b. \<not> is_nan (below_line ps es j)
                      \<and> \<not> fle (below_line ps es b) (below_line ps es j))
            \<and> (is_nan (below_line ps es b)
                 \<or> (\<forall>j<length ps. fle (below_line ps es j) (below_line ps es b)))"
    using before top b(1,2) by blast
  with flat line show ?thesis by blast
qed

theorem first_maximum_witness:
  "best_value PyFloat [1, 2, 3] [Fin 1, Fin 2, Fin 3] = Inr 1
   \<and> best_value PyFloat [1, 2, 3] (map Fin [1, 2, 3]) = Inr 1
   \<and> (\<exists>b<length [1, 2, 3 :: int].
         best_value PyFloat [1, 2, 3] [Fin 1, Fin 2, Fin 3] = Inr ([1, 2, 3] ! b)
         \<and> (\<forall>j<b. \<not> fle (below_line [1, 2, 3] [Fin 1, Fin 2, Fin 3] b)
                         (below_line [1, 2, 3] [Fin 1, Fin 2, Fin 3] j)))"
proof -
  have h: "2 \<le> length [1, 2, 3 :: int]" "last [1, 2, 3 :: int] \<noteq> hd [1, 2, 3]"
    "length [Fin 1, Fin 2, Fin 3] = length [1, 2, 3 :: int]"
    "\<forall>p\<in>set [1, 2, 3 :: int]. in_int64 p" by (simp_all add: in_int64_def)
  note fm = first_maximum[OF h, of PyFloat]
  have flat: "\<forall>j<length [1, 2, 3 :: int].
          below_line [1, 2, 3] [Fin 1, Fin 2, Fin 3] j = below_line [1, 2, 3] [Fin 1, Fin 2, Fin 3] 0"
    by (simp add: below_line_def chord_slope_def chord_intercept_def f64_eval All_less_Suc)
  have line: "length [1, 2, 3 :: real] = length [1, 2, 3 :: int]
      \<and> exact_sweep [1, 2, 3] [1, 2, 3]
      \<and> (\<forall>j<length [1, 2, 3 :: int]. below_exact [1, 2, 3] [1, 2, 3] j = 0)"
    by (simp add: exact_eval f64_eval)
  have "best_value PyFloat [1, 2, 3] [Fin 1, Fin 2, Fin 3] = Inr (hd [1, 2, 3])"
    using fm[THEN conjunct2, THEN conjunct1] flat by (rule mp)
  moreover have "best_value PyFloat [1, 2, 3] (map Fin [1, 2, 3]) = Inr (hd [1, 2, 3])"
    using fm[THEN conjunct2, THEN conjunct2, THEN spec, of "[1, 2, 3]"] line by (rule mp)
  moreover have "\<exists>b<length [1, 2, 3 :: int].
         best_value PyFloat [1, 2, 3] [Fin 1, Fin 2, Fin 3] = Inr ([1, 2, 3] ! b)
         \<and> (\<forall>j<b. \<not> fle (below_line [1, 2, 3] [Fin 1, Fin 2, Fin 3] b)
                         (below_line [1, 2, 3] [Fin 1, Fin 2, Fin 3] j))"
    using fm[THEN conjunct1] by blast
  ultimately show ?thesis by simp
qed

text \<open>
  Against claim C5: in \<open>[3, 4, 5]\<close> with the finite errors \<open>[3 * 2^1022, 0, 2^1023]\<close>
  only the interior point has the minimal error, but the intercept overflows to
  \<open>inf\<close>, all distances are \<open>inf\<close> and the cell prints \<open>3\<close>. With the parameter
  values \<open>2^53 + 1, 2^53 + 2, 2^53 + 3\<close> and the errors \<open>[4, 0, 1]\<close> the conversion of
  the parameter values to binary64 rounds, and the cell prints the first one.
\<close>

theorem unique_dip_counterexample:
  "sorted_wrt (<) [3, 4, 5 :: int]
   \<and> (0 :: real) < 3 * 2 ^ 1022 \<and> (0 :: real) < 2 ^ 1023
   \<and> intercept [3, 4, 5] [Fin (3 * 2 ^ 1022), Fin 0, Fin (2 ^ 1023)] (Fin (- (2 ^ 1021))) = Inr PInf
   \<and> best_value PyFloat [3, 4, 5] [Fin (3 * 2 ^ 1022), Fin 0, Fin (2 ^ 1023)] = Inr 3
   \<and> best_value NpFloat64 [3, 4, 5] [Fin (3 * 2 ^ 1022), Fin 0, Fin (2 ^ 1023)] = Inr 3
   \<and> sorted_wrt (<) [9007199254740993, 9007199254740994, 9007199254740995 :: int]
   \<and> best_value PyFloat [9007199254740993, 9007199254740994, 9007199254740995] [Fin 4, Fin 0, Fin 1]
       = Inr 9007199254740993
   \<and> best_value NpFloat64 [9007199254740993, 9007199254740994, 9007199254740995] [Fin 4, Fin 0, Fin 1]
       = Inr 9007199254740993"
  by (simp add: cell_eval f64_eval)

text \<open>
  Claim C5, amended. On a strictly increasing sweep that the cell computes without
  rounding or overflow, if the error at one interior index \<open>j\<close> is smaller than every
  other error and every other point lies exactly on the line through the first and the
  last point, the cell prints the parameter value at \<open>j\<close>.
\<close>

theorem unique_dip_exact:
  assumes "sorted_wrt (<) ps" "length es = length ps" "exact_sweep ps es"
    and "0 < j" "j + 1 < length ps"
    and "\<forall>i<length ps. i \<noteq> j \<longrightarrow> es ! j < es ! i"
    and "\<forall>i<length ps. i \<noteq> j \<longrightarrow> below_exact ps es i = 0"
  shows "best_value k ps (map Fin es) = Inr (ps ! j)"
proof -
  let ?n = "length ps"
  have ps: "ps \<noteq> []" and es: "es \<noteq> []" using assms by auto
  have hd_ps: "hd ps = ps ! 0" and last_ps: "last ps = ps ! (?n - 1)"
    using ps by (simp_all add: hd_conv_nth last_conv_nth)
  have hd_es: "hd es = es ! 0" and last_es: "last es = es ! (?n - 1)"
    using es assms(2) by (simp_all add: hd_conv_nth last_conv_nth)
  have lo: "ps ! 0 < ps ! j" and hi: "ps ! j < ps ! (?n - 1)"
    using assms(1,4,5) by (auto intro: sorted_wrt_nth_less)
  then have range: "last ps \<noteq> hd ps" using hd_ps last_ps by simp
  define D :: real where "D = of_int (ps ! (?n - 1) - ps ! 0)"
  define t :: real where "t = of_int (ps ! j - ps ! 0) / D"
  have D: "0 < D" using lo hi by (simp add: D_def)
  have t: "0 < t" "t < 1" using lo hi D by (simp_all add: t_def D_def)
  have "0 < ?n" "0 \<noteq> j" "?n - 1 < ?n" "?n - 1 \<noteq> j"
    using assms(4,5) by auto
  then have e1: "es ! j < es ! 0" and en: "es ! j < es ! (?n - 1)"
    using assms(6) by blast+
  have "below_exact ps es j = (1 - t) * es ! 0 + t * es ! (?n - 1) - es ! j"
    using D
    by (simp add: below_exact_def slope_exact_def intercept_exact_def hd_ps last_ps hd_es
        last_es t_def D_def field_simps)
  then have pos: "0 < below_exact ps es j"
    using convex_above[OF e1 en t] by simp
  from best_value_exact[OF ps assms(2) range assms(3), of k] obtain b where
    b: "b < ?n" "best_value k ps (map Fin es) = Inr (ps ! b)"
       "\<forall>i<?n. below_exact ps es i \<le> below_exact ps es b"
    by blast
  have "b = j"
  proof (rule ccontr)
    assume "b \<noteq> j"
    then have "below_exact ps es b = 0" using assms(7) b(1) by simp
    moreover have "below_exact ps es j \<le> below_exact ps es b" using b(3) assms(5) by simp
    ultimately show False using pos by simp
  qed
  then show ?thesis using b(2) by simp
qed

theorem unique_dip_exact_witness:
  "best_value PyFloat [1, 2, 3, 4] (map Fin [4, 1, 6, 7]) = Inr 2"
proof -
  have "exact_sweep [1, 2, 3, 4] [4, 1, 6, 7]"
    by (simp add: exact_eval f64_eval)
  moreover have "\<forall>i<length [1, 2, 3, 4 :: int]. i \<noteq> 1 \<longrightarrow> [4, 1, 6, 7 :: real] ! 1 < [4, 1, 6, 7] ! i"
    by (simp add: All_less_Suc)
  moreover have "\<forall>i<length [1, 2, 3, 4 :: int]. i \<noteq> 1 \<longrightarrow> below_exact [1, 2, 3, 4] [4, 1, 6, 7] i = 0"
    by (simp add: exact_eval)
  ultimately show ?thesis
    using unique_dip_exact[of "[1, 2, 3, 4]" "[4, 1, 6, 7]" 1 PyFloat] by simp
qed

text \<open>
  Against claim C9: at the parameter values \<open>[1, 2, 3, 4]\<close> the cell prints \<open>1\<close> for
  the errors \<open>[1, 1, 1, 0]\<close> and \<open>4\<close> for the errors \<open>[2, 2, 2, 1]\<close>, which are
  the same errors with \<open>1\<close> added (exactly, in binary64): the slope \<open>-1/3\<close> is rounded
  and the last distance becomes \<open>2^-52\<close> instead of \<open>0\<close>.
\<close>

theorem shift_counterexample:
  "fadd (Fin 1) (Fin 1) = Fin 2 \<and> fadd (Fin 0) (Fin 1) = Fin 1
   \<and> best_value PyFloat [1, 2, 3, 4] [Fin 1, Fin 1, Fin 1, Fin 0] = Inr 1
   \<and> best_value PyFloat [1, 2, 3, 4] [Fin 2, Fin 2, Fin 2, Fin 1] = Inr 4
   \<and> best_value NpFloat64 [1, 2, 3, 4] [Fin 1, Fin 1, Fin 1, Fin 0] = Inr 1
   \<and> best_value NpFloat64 [1, 2, 3, 4] [Fin 2, Fin 2, Fin 2, Fin 1] = Inr 4"
  by (simp add: cell_eval f64_eval)

text \<open>
  Claim C9, amended. Adding a constant \<open>c\<close> to every error leaves the printed parameter
  value unchanged whenever the cell computes both sweeps, the given one and the shifted
  one, without rounding.
\<close>

theorem shift_exact:
  assumes "2 \<le> length ps" "last ps \<noteq> hd ps" "length es = length ps"
    and "exact_sweep ps es" "exact_sweep ps (map (\<lambda>e. e + c) es)"
  shows "best_value k ps (map Fin (map (\<lambda>e. e + c) es)) = best_value k ps (map Fin es)"
proof -
  have ps: "ps \<noteq> []" and es: "es \<noteq> []" using assms by auto
  have len: "length (map (\<lambda>e. e + c) es) = length ps" using assms(3) by simp
  have "best_n k ps (map Fin (map (\<lambda>e. e + c) es))
        = argmax (map (\<lambda>j. Fin (below_exact ps (map (\<lambda>e. e + c) es) j)) [0..<length ps])"
    by (rule best_n_exact[OF ps len assms(2,5)])
  also have "\<dots> = argmax (map (\<lambda>j. Fin (below_exact ps es j)) [0..<length ps])"
  proof -
    have "map (\<lambda>j. Fin (below_exact ps (map (\<lambda>e. e + c) es) j)) [0..<length ps]
          = map (\<lambda>j. Fin (below_exact ps es j)) [0..<length ps]"
      using below_exact_shift[OF es, of _ ps c] assms(3) by (intro map_cong) simp_all
    then show ?thesis by (simp only:)
  qed
  also have "\<dots> = best_n k ps (map Fin es)"
    by (rule best_n_exact[OF ps assms(3,2,4), symmetric])
  finally have "best_n k ps (map Fin (map (\<lambda>e. e + c) es)) = best_n k ps (map Fin es)" .
  then show ?thesis by (simp add: best_value_def)
qed

theorem shift_exact_witness:
  "best_value PyFloat [1, 2, 3, 4, 5] (map Fin (map (\<lambda>e. e + 1) [10, 8, 3, 7, 9]))
   = best_value PyFloat [1, 2, 3, 4, 5] (map Fin [10, 8, 3, 7, 9])"
proof -
  have "exact_sweep [1, 2, 3, 4, 5] [10, 8, 3, 7, 9]"
    by (simp add: exact_eval f64_eval)
  moreover have "exact_sweep [1, 2, 3, 4, 5] (map (\<lambda>e. e + 1) [10, 8, 3, 7, 9])"
    by (simp add: exact_eval f64_eval)
  ultimately show ?thesis
    using shift_exact[of "[1, 2, 3, 4, 5]" "[10, 8, 3, 7, 9]" 1 PyFloat] by simp
qed

end
